theory Spec2Isabelle
  imports Main "HOL-Library.Multiset"
begin

section \<open>Mutation-Simulator: the utility module \<open>mutation_simulator/util.py\<close>\<close>

text \<open>
  The module holds printing helpers, an MD5 helper, a wrapper around the FASTA parser of
  \<open>pyfaidx\<close>, the sampler \<open>sample_with_minimum_distance\<close> and the iterator helper
  \<open>pairwise\<close>. The embedding below covers \<open>load_fasta\<close>, \<open>sample_with_minimum_distance\<close>
  and \<open>pairwise\<close>. Python's unbounded integers are \<open>int\<close>, Python lists are HOL lists,
  a raised exception is the \<open>Inl\<close> branch of a sum.
\<close>

subsection \<open>Exceptions\<close>

text \<open>
  \<open>lib_exn\<close> are the exceptions that library code (\<open>pathlib\<close>, \<open>random.sample\<close>,
  \<open>pyfaidx.Fasta\<close>) raises: \<open>ValueError\<close> (with its subclasses, which
  \<open>except ValueError\<close> catches alike), \<open>OverflowError\<close>, and any other exception, tagged
  with its name. \<open>error\<close> are the exceptions that leave \<open>load_fasta\<close>: the module's own
  \<open>FastaDuplicateHeaderError\<close> with its message, or a library exception that no handler
  caught.
\<close>

datatype lib_exn = ValueError | OverflowError | OtherException string

datatype error = FastaDuplicateHeaderError string | Uncaught lib_exn

subsection \<open>\<open>load_fasta\<close> (lines 77-91)\<close>

text \<open>
  The body of the \<open>try\<close> is \<open>Fasta(str(fname.resolve()), ...)\<close>: first the path is
  resolved, which may raise (a \<open>ValueError\<close> for a NUL character in the name, a
  \<open>RuntimeError\<close> for a symlink loop), then the external parser runs on the resolved
  path and returns a parsed object or raises. Both are oracles. \<open>fname\<close> is the path as
  the f-string prints it. The only handler is \<open>except ValueError\<close>; every other
  exception of the body leaves the function as it is.
\<close>

definition try_body ::
  "(string \<Rightarrow> lib_exn + string) \<Rightarrow> (string \<Rightarrow> lib_exn + 'fasta) \<Rightarrow> string
     \<Rightarrow> lib_exn + 'fasta" where
  "try_body resolve Fasta fname =
     (case resolve fname of
        Inl e \<Rightarrow> Inl e
      | Inr path \<Rightarrow> Fasta path)"

definition load_fasta ::
  "(string \<Rightarrow> lib_exn + string) \<Rightarrow> (string \<Rightarrow> lib_exn + 'fasta) \<Rightarrow> string
     \<Rightarrow> error + 'fasta" where
  "load_fasta resolve Fasta fname =
     (case try_body resolve Fasta fname of
        Inr fasta \<Rightarrow> Inr fasta
      | Inl e \<Rightarrow>
          (if e = ValueError
           then Inl (FastaDuplicateHeaderError
                       (''Fasta '' @ fname @ '' contains duplicate header''))
           else Inl (Uncaught e)))"

subsection \<open>\<open>range\<close> and \<open>random.sample\<close>\<close>

text \<open>
  A \<open>range(a, b)\<close> object is kept as its two bounds: it is never materialised by the
  code. Its elements are \<open>a, a + 1, ..., b - 1\<close> (none when \<open>b \<le> a\<close>). \<open>len\<close> of a range
  raises \<open>OverflowError\<close> when the number of elements exceeds \<open>sys.maxsize\<close>, which is
  \<open>2^63 - 1\<close> on 64-bit CPython.
\<close>

datatype py_range = Range int int

definition sys_maxsize :: int where
  "sys_maxsize = 2 ^ 63 - 1"

fun range_len :: "py_range \<Rightarrow> int" where
  "range_len (Range a b) = max 0 (b - a)"

fun range_list :: "py_range \<Rightarrow> int list" where
  "range_list (Range a b) = [a..b - 1]"

fun in_range :: "int \<Rightarrow> py_range \<Rightarrow> bool" where
  "in_range x (Range a b) = (a \<le> x \<and> x < b)"

definition len :: "py_range \<Rightarrow> lib_exn + int" where
  "len r = (if sys_maxsize < range_len r then Inl OverflowError else Inr (range_len r))"

text \<open>
  \<open>random.sample(population, k)\<close> first takes \<open>n = len(population)\<close>, then checks
  \<open>0 <= k <= n\<close> and raises \<open>ValueError\<close> otherwise; only then does it allocate the
  result and consult the random generator. That last part, the selection step, is a
  parameter: \<open>pick g population k\<close> reads the generator state \<open>g\<close> and either raises
  (a \<open>MemoryError\<close> when the \<open>k\<close>-element result cannot be allocated) or returns the
  chosen list, with the new state. What a selection step that returns promises is
  \<open>is_sample_of\<close>: \<open>k\<close> elements taken at distinct positions of the population, which
  for a range are \<open>k\<close> distinct members.
\<close>

type_synonym 'g picker = "'g \<Rightarrow> py_range \<Rightarrow> nat \<Rightarrow> (lib_exn + int list) \<times> 'g"

definition sample ::
  "'g picker \<Rightarrow> py_range \<Rightarrow> int \<Rightarrow> 'g \<Rightarrow> (lib_exn + int list) \<times> 'g" where
  "sample pick population k g =
     (case len population of
        Inl e \<Rightarrow> (Inl e, g)
      | Inr n \<Rightarrow>
          (if 0 \<le> k \<and> k \<le> n then pick g population (nat k)
           else (Inl ValueError, g)))"

definition is_sample_of :: "py_range \<Rightarrow> int \<Rightarrow> int list \<Rightarrow> bool" where
  "is_sample_of population k xs =
     (int (length xs) = k \<and> distinct xs \<and> list_all (\<lambda>x. in_range x population) xs)"

subsection \<open>\<open>sample_with_minimum_distance\<close> (lines 94-107)\<close>

text \<open>
  \<open>sorted(xs, key=f)\<close> is a stable sort, as \<open>sort_key f xs\<close> is. \<open>expand\<close> is the part of
  the function after the draw (lines 103-107): \<open>indices\<close> sorts the positions of \<open>sampl\<close>
  by the value they hold, the second \<open>sorted\<close> sorts those positions by their place in
  \<open>indices\<close>, and the comprehension adds \<open>d * r\<close> to each drawn value. Every subscript is
  a position of \<open>sampl\<close>, so no \<open>IndexError\<close> arises. The lists built there have the
  length of the draw; running out of memory while building them is not modelled.
\<close>

definition expand :: "int \<Rightarrow> int list \<Rightarrow> int list" where
  "expand d sampl =
     (let indices = sort_key (\<lambda>i. sampl ! i) [0..<length sampl]
      in map (\<lambda>(s, r). s + d * int r)
           (zip sampl (sort_key (\<lambda>i. indices ! i) indices)))"

definition sample_with_minimum_distance ::
  "'g picker \<Rightarrow> int \<Rightarrow> int \<Rightarrow> int \<Rightarrow> 'g \<Rightarrow> (lib_exn + int list) \<times> 'g" where
  "sample_with_minimum_distance pick n k d g =
     (case sample pick (Range 1 (n - (k - 1) * d)) k g of
        (Inl e, g') \<Rightarrow> (Inl e, g')
      | (Inr sampl, g') \<Rightarrow> (Inr (expand d sampl), g'))"

subsection \<open>\<open>pairwise\<close> (lines 110-117)\<close>

text \<open>
  \<open>tee\<close> gives two independent iterators over the same elements; \<open>next(b, None)\<close>
  advances the second by one element if it has one and does nothing otherwise; \<open>zip\<close>
  stops with the shorter one.
\<close>

definition next_default :: "'a list \<Rightarrow> 'a list" where
  "next_default b = (case b of [] \<Rightarrow> [] | _ # rest \<Rightarrow> rest)"

definition pairwise :: "'a list \<Rightarrow> ('a \<times> 'a) list" where
  "pairwise iterable = (let a = iterable; b = iterable in zip a (next_default b))"

subsection \<open>Notions of the specification\<close>

text \<open>
  A call is valid, in the sense of the specification, when \<open>n\<close> is positive, \<open>k\<close> and
  \<open>d\<close> are non-negative and the compressed range \<open>n - (k - 1) * d\<close> is at least \<open>k + 1\<close>.
  \<open>fits_ssize\<close> says that \<open>range(1, n - (k - 1) * d)\<close> has at most \<open>sys.maxsize\<close>
  elements, so that its \<open>len\<close> does not raise.
\<close>

definition valid_params :: "int \<Rightarrow> int \<Rightarrow> int \<Rightarrow> bool" where
  "valid_params n k d = (0 < n \<and> 0 \<le> k \<and> 0 \<le> d \<and> k + 1 \<le> n - (k - 1) * d)"

definition fits_ssize :: "int \<Rightarrow> int \<Rightarrow> int \<Rightarrow> bool" where
  "fits_ssize n k d = (range_len (Range 1 (n - (k - 1) * d)) \<le> sys_maxsize)"

subsection \<open>Auxiliary notions\<close>

text \<open>
  \<open>ranks_of sampl\<close> is the second component of the \<open>zip\<close> in \<open>expand\<close>: the list that
  the two nested \<open>sorted\<close> calls compute. \<open>spread d ys\<close> adds \<open>d * r\<close> to the element at
  position \<open>r\<close>.
\<close>

definition ranks_of :: "int list \<Rightarrow> nat list" where
  "ranks_of sampl =
     (let indices = sort_key (\<lambda>i. sampl ! i) [0..<length sampl]
      in sort_key (\<lambda>i. indices ! i) indices)"

definition spread :: "int \<Rightarrow> int list \<Rightarrow> int list" where
  "spread d ys = map (\<lambda>r. ys ! r + d * int r) [0..<length ys]"

text \<open>
  \<open>gaps_ge g zs\<close>: every adjacent pair of \<open>zs\<close>, as \<open>pairwise\<close> produces them, differs by
  at least \<open>g\<close>. \<open>rank_in xs x\<close> is the 0-based ascending rank of \<open>x\<close> among the elements
  of \<open>xs\<close>: the number of elements below it.
\<close>

definition gaps_ge :: "int \<Rightarrow> int list \<Rightarrow> bool" where
  "gaps_ge g zs = list_all (\<lambda>(a, b). g \<le> b - a) (pairwise zs)"

definition rank_in :: "int list \<Rightarrow> int \<Rightarrow> nat" where
  "rank_in xs x = length (filter (\<lambda>y. y < x) xs)"

text \<open>
  \<open>drawn\<close> is what the selection step does on the call
  \<open>sample(range(1, n - (k - 1) * d), k)\<close>: it raises or hands back a list.
  \<open>honest_draw\<close> says that it hands back a list and that this list is what
  \<open>random.sample\<close> promises: \<open>k\<close> distinct members of the range.
\<close>

definition drawn :: "'g picker \<Rightarrow> int \<Rightarrow> int \<Rightarrow> int \<Rightarrow> 'g \<Rightarrow> lib_exn + int list" where
  "drawn pick n k d g = fst (pick g (Range 1 (n - (k - 1) * d)) (nat k))"

definition honest_draw :: "'g picker \<Rightarrow> int \<Rightarrow> int \<Rightarrow> int \<Rightarrow> 'g \<Rightarrow> bool" where
  "honest_draw pick n k d g =
     (case drawn pick n k d g of
        Inl e \<Rightarrow> False
      | Inr xs \<Rightarrow> is_sample_of (Range 1 (n - (k - 1) * d)) k xs)"

text \<open>
  A concrete selection step for evaluation: it refuses more than a thousand elements
  with a \<open>MemoryError\<close>; otherwise it takes the first \<open>k\<close> elements of the population,
  rotated by one so that the draw is not sorted, and counts its calls in the generator
  state.
\<close>

definition rotating_pick :: "nat picker" where
  "rotating_pick g population k =
     (if 1000 < k then (Inl (OtherException ''MemoryError''), g)
      else (Inr (rotate1 (take k (range_list population))), Suc g))"

text \<open>
  Concrete oracles for evaluation. The resolver raises \<open>ValueError\<close> on a name with a
  NUL character and \<open>RuntimeError\<close> on one name, and prefixes a directory otherwise. One
  parser raises \<open>ValueError\<close> on one path, another exception on a second path and returns
  a value otherwise; the other parser never raises.
\<close>

definition toy_resolve :: "string \<Rightarrow> lib_exn + string" where
  "toy_resolve fname =
     (if CHR 0x00 \<in> set fname then Inl ValueError
      else if fname = ''loop.fa'' then Inl (OtherException ''RuntimeError'')
      else Inr (''/data/'' @ fname))"

definition toy_Fasta :: "string \<Rightarrow> lib_exn + nat" where
  "toy_Fasta path =
     (if path = ''/data/dup.fa'' then Inl ValueError
      else if path = ''/data/missing.fa'' then Inl (OtherException ''FastaNotFoundError'')
      else Inr (length path))"

definition always_parses :: "string \<Rightarrow> lib_exn + nat" where
  "always_parses path = Inr (length path)"

text \<open>
  The possible outputs of a call are the lists it returns for some draw that keeps the
  promise of \<open>random.sample\<close>; the selection step that hands back a fixed list \<open>sampl\<close>
  stands for that draw. \<open>k_subsets m k\<close> are the \<open>k\<close>-element subsets of \<open>[1, m)\<close>,
  \<open>min_gap_subsets n k g\<close> those of \<open>[1, n)\<close> whose sorted adjacent gaps are at least \<open>g\<close>.
  \<open>expand_set\<close> is the expansion of the code applied to a set through its sorted list.
  Whether the machine can hold a list of \<open>k\<close> elements is not part of the notion.
\<close>

definition possible_outputs :: "int \<Rightarrow> int \<Rightarrow> int \<Rightarrow> int list set" where
  "possible_outputs n k d =
     {out. \<exists>sampl. is_sample_of (Range 1 (n - (k - 1) * d)) k sampl \<and>
             fst (sample_with_minimum_distance (\<lambda>g population j. (Inr sampl, g)) n k d ())
               = Inr out}"

definition k_subsets :: "int \<Rightarrow> int \<Rightarrow> int set set" where
  "k_subsets m k = {S. S \<subseteq> {1..<m} \<and> int (card S) = k}"

definition min_gap_subsets :: "int \<Rightarrow> int \<Rightarrow> int \<Rightarrow> int set set" where
  "min_gap_subsets n k g =
     {S. S \<subseteq> {1..<n} \<and> int (card S) = k \<and> gaps_ge g (sorted_list_of_set S)}"

definition expand_set :: "int \<Rightarrow> int set \<Rightarrow> int set" where
  "expand_set d S = set (expand d (sorted_list_of_set S))"

text \<open>
  \<open>squeeze\<close> undoes \<open>spread\<close>: it subtracts \<open>d * r\<close> at position \<open>r\<close>; \<open>compress_set\<close> is
  the same on sets.
\<close>

definition squeeze :: "int \<Rightarrow> int list \<Rightarrow> int list" where
  "squeeze d zs = map (\<lambda>r. zs ! r - d * int r) [0..<length zs]"

definition compress_set :: "int \<Rightarrow> int set \<Rightarrow> int set" where
  "compress_set d T = set (squeeze d (sorted_list_of_set T))"

section \<open>Properties\<close>

subsection \<open>\<open>pairwise\<close>\<close>

lemma next_default_drop: "next_default b = drop 1 b"
  by (cases b) (simp_all add: next_default_def)

lemma pairwise_zip_drop: "pairwise xs = zip xs (drop 1 xs)"
  by (simp add: pairwise_def next_default_drop)

text \<open>
  Claim C9. For a sequence of length \<open>L\<close>, \<open>pairwise\<close> yields \<open>max (L - 1) 0\<close> pairs
  (truncating subtraction on \<open>nat\<close>), the \<open>i\<close>-th pair being \<open>(xs[i], xs[i+1])\<close>; the
  empty sequence and a singleton give the empty sequence, and \<open>pairwise [1, 2, 3]\<close> is
  \<open>[(1, 2), (2, 3)]\<close>.
\<close>

theorem pairwise_adjacent:
  "length (pairwise xs) = length xs - 1 \<and>
   (\<forall>i < length xs - 1. pairwise xs ! i = (xs ! i, xs ! (i + 1))) \<and>
   (length xs \<le> 1 \<longrightarrow> pairwise xs = []) \<and>
   pairwise ([] :: 'a list) = [] \<and> pairwise [x] = [] \<and>
   pairwise [1, 2, 3 :: int] = [(1, 2), (2, 3)]"
proof -
  have len: "length (pairwise xs) = length xs - 1"
    by (simp add: pairwise_zip_drop)
  have nth: "\<forall>i < length xs - 1. pairwise xs ! i = (xs ! i, xs ! (i + 1))"
    by (simp add: pairwise_zip_drop)
  have short: "length xs \<le> 1 \<longrightarrow> pairwise xs = []"
    by (simp add: pairwise_zip_drop)
  have ex: "pairwise ([] :: 'a list) = []" "pairwise [x] = []"
    "pairwise [1, 2, 3 :: int] = [(1, 2), (2, 3)]"
    by (simp_all add: pairwise_zip_drop)
  from len nth short ex show ?thesis by blast
qed

theorem pairwise_adjacent_witness:
  "(1::nat) < length [7, 5, 9 :: int] - 1 \<and> length [4 :: int] \<le> 1 \<and>
   length (pairwise [7, 5, 9 :: int]) = 2 \<and> pairwise [7, 5, 9 :: int] ! 1 = (5, 9) \<and>
   pairwise [4 :: int] = []"
proof -
  note a = pairwise_adjacent [of "[7, 5, 9 :: int]" 0]
  note b = pairwise_adjacent [of "[4 :: int]" 0]
  have h: "(1::nat) < length [7, 5, 9 :: int] - 1" and h': "length [4 :: int] \<le> 1"
    by simp_all
  have "pairwise [7, 5, 9 :: int] ! 1 = ([7, 5, 9] ! 1, [7, 5, 9] ! (1 + 1))"
    using a [THEN conjunct2, THEN conjunct1, rule_format, OF h] .
  moreover have "length (pairwise [7, 5, 9 :: int]) = length [7, 5, 9 :: int] - 1"
    using a [THEN conjunct1] .
  moreover have "pairwise [4 :: int] = []"
    using b [THEN conjunct2, THEN conjunct2, THEN conjunct1, rule_format, OF h'] .
  ultimately show ?thesis by simp
qed

subsection \<open>The two nested sorts compute ranks\<close>

lemma expand_zip_ranks: "expand d xs = map (\<lambda>(s, r). s + d * int r) (zip xs (ranks_of xs))"
  by (simp add: expand_def ranks_of_def Let_def)

lemma argsort_sorted: "map (\<lambda>i. xs ! i) (sort_key (\<lambda>i. xs ! i) [0..<length xs]) = sort xs"
proof -
  let ?p = "sort_key (\<lambda>i. xs ! i) [0..<length xs]"
  have "mset (map (\<lambda>i. xs ! i) ?p) = mset (map (\<lambda>i. xs ! i) [0..<length xs])"
    by simp
  also have "map (\<lambda>i. xs ! i) [0..<length xs] = xs"
    by (rule map_nth)
  finally have m: "mset (map (\<lambda>i. xs ! i) ?p) = mset xs" .
  have s: "sorted (map (\<lambda>i. xs ! i) ?p)"
    by (rule sorted_sort_key)
  show ?thesis
    by (rule properties_for_sort [symmetric, OF m s])
qed

lemma inverse_perm:
  assumes "mset p = mset [0..<k]"
  shows "map (\<lambda>i. p ! i) (sort_key (\<lambda>i. p ! i) p) = [0..<k]"
proof -
  have len: "length p = k"
    using assms by (metis size_mset length_upt diff_zero)
  have "mset (map (\<lambda>i. p ! i) (sort_key (\<lambda>i. p ! i) p)) = image_mset (\<lambda>i. p ! i) (mset p)"
    by simp
  also have "\<dots> = mset (map (\<lambda>i. p ! i) [0..<length p])"
    using assms len by simp
  also have "\<dots> = mset [0..<k]"
    using assms by (simp add: map_nth)
  finally have m: "mset (map (\<lambda>i. p ! i) (sort_key (\<lambda>i. p ! i) p)) = mset [0..<k]" .
  have "sorted (map (\<lambda>i. p ! i) (sort_key (\<lambda>i. p ! i) p))"
    by (rule sorted_sort_key)
  from properties_for_sort [OF m this] show ?thesis
    by (simp add: sorted_sort_id)
qed

lemma mset_ranks_of: "mset (ranks_of xs) = mset [0..<length xs]"
  by (simp add: ranks_of_def Let_def)

lemma length_ranks_of: "length (ranks_of xs) = length xs"
  by (simp add: ranks_of_def Let_def)

lemma set_ranks_of: "set (ranks_of xs) = {0..<length xs}"
  by (simp add: ranks_of_def Let_def)

lemma ranks_of_sorted_nth: "map (\<lambda>r. sort xs ! r) (ranks_of xs) = xs"
proof -
  let ?p = "sort_key (\<lambda>i. xs ! i) [0..<length xs]"
  have mp: "mset ?p = mset [0..<length xs]"
    by simp
  have inv: "map (\<lambda>i. ?p ! i) (ranks_of xs) = [0..<length xs]"
    using inverse_perm [OF mp] by (simp add: ranks_of_def Let_def)
  have "map (\<lambda>r. sort xs ! r) (ranks_of xs) = map (\<lambda>r. xs ! (?p ! r)) (ranks_of xs)"
  proof (rule map_cong [OF refl])
    fix r assume "r \<in> set (ranks_of xs)"
    then have "r < length ?p"
      by (simp add: set_ranks_of)
    then have "map (\<lambda>i. xs ! i) ?p ! r = xs ! (?p ! r)"
      by (rule nth_map)
    then show "sort xs ! r = xs ! (?p ! r)"
      by (simp only: argsort_sorted)
  qed
  also have "\<dots> = map (\<lambda>i. xs ! i) (map (\<lambda>r. ?p ! r) (ranks_of xs))"
    by simp
  also have "\<dots> = map (\<lambda>i. xs ! i) [0..<length xs]"
    by (simp only: inv)
  also have "\<dots> = xs"
    by (rule map_nth)
  finally show ?thesis .
qed

lemma expand_ranks: "expand d xs = map (\<lambda>r. sort xs ! r + d * int r) (ranks_of xs)"
proof -
  have "zip xs (ranks_of xs) = zip (map (\<lambda>r. sort xs ! r) (ranks_of xs)) (ranks_of xs)"
    by (simp only: ranks_of_sorted_nth)
  also have "\<dots> = map (\<lambda>r. (sort xs ! r, r)) (ranks_of xs)"
    by (simp add: zip_map1 zip_same_conv_map)
  finally show ?thesis
    by (simp add: expand_zip_ranks)
qed

lemma expand_nth:
  assumes "i < length xs"
  shows "expand d xs ! i = xs ! i + d * int (ranks_of xs ! i)"
  using assms by (simp add: expand_zip_ranks length_ranks_of)

lemma length_expand: "length (expand d xs) = length xs"
  by (simp add: expand_zip_ranks length_ranks_of)

lemma mset_expand: "mset (expand d xs) = mset (spread d (sort xs))"
proof -
  have "mset (expand d xs) = image_mset (\<lambda>r. sort xs ! r + d * int r) (mset (ranks_of xs))"
    by (simp add: expand_ranks)
  also have "\<dots> = image_mset (\<lambda>r. sort xs ! r + d * int r) (mset [0..<length xs])"
    by (simp only: mset_ranks_of)
  finally show ?thesis
    by (simp add: spread_def)
qed

subsection \<open>Gaps between adjacent elements\<close>

lemma gaps_ge_nth:
  "gaps_ge g zs \<longleftrightarrow> (\<forall>i. Suc i < length zs \<longrightarrow> zs ! i + g \<le> zs ! Suc i)"
proof -
  have "gaps_ge g zs \<longleftrightarrow> (\<forall>i < length zs - 1. zs ! i + g \<le> zs ! Suc i)"
    by (simp add: gaps_ge_def pairwise_zip_drop list_all_length algebra_simps)
  also have "\<dots> \<longleftrightarrow> (\<forall>i. Suc i < length zs \<longrightarrow> zs ! i + g \<le> zs ! Suc i)"
    by (simp add: less_diff_conv)
  finally show ?thesis .
qed

lemma gaps_ge_far:
  assumes "gaps_ge g zs" and "j < length zs" and "i \<le> j"
  shows "zs ! i + g * int (j - i) \<le> zs ! j"
  using assms(2,3)
proof (induction j)
  case 0
  then show ?case by simp
next
  case (Suc j)
  show ?case
  proof (cases "i = Suc j")
    case True
    then show ?thesis by simp
  next
    case False
    with Suc.prems have ij: "i \<le> j" and j: "j < length zs"
      by simp_all
    from Suc.IH [OF j ij] have "zs ! i + g * int (j - i) \<le> zs ! j" .
    moreover from assms(1) Suc.prems(1) have "zs ! j + g \<le> zs ! Suc j"
      by (simp add: gaps_ge_nth)
    moreover from ij have "int (Suc j - i) = int (j - i) + 1"
      by simp
    ultimately show ?thesis
      by (simp add: algebra_simps)
  qed
qed

lemma gaps_ge_strict_sorted:
  assumes "gaps_ge g zs" and "0 < g"
  shows "sorted_wrt (<) zs"
proof -
  have "zs ! i < zs ! j" if "i < j" and "j < length zs" for i j
  proof -
    from gaps_ge_far [OF assms(1) that(2)] that(1)
    have "zs ! i + g * int (j - i) \<le> zs ! j"
      by simp
    moreover from that(1) assms(2) have "0 < g * int (j - i)"
      by simp
    ultimately show ?thesis
      by linarith
  qed
  then show ?thesis
    by (simp add: sorted_wrt_iff_nth_less)
qed

lemma gaps_ge_sorted:
  assumes "gaps_ge g zs" and "0 \<le> g"
  shows "sorted zs"
proof -
  have "zs ! i \<le> zs ! j" if "i \<le> j" and "j < length zs" for i j
  proof -
    from gaps_ge_far [OF assms(1) that(2) that(1)]
    have "zs ! i + g * int (j - i) \<le> zs ! j" .
    moreover from assms(2) have "0 \<le> g * int (j - i)"
      by simp
    ultimately show ?thesis
      by linarith
  qed
  then show ?thesis
    by (simp add: sorted_iff_nth_mono)
qed

lemma length_spread: "length (spread d ys) = length ys"
  by (simp add: spread_def)

lemma spread_nth: "r < length ys \<Longrightarrow> spread d ys ! r = ys ! r + d * int r"
  by (simp add: spread_def)

lemma spread_gaps:
  assumes "gaps_ge g ys"
  shows "gaps_ge (g + d) (spread d ys)"
  unfolding gaps_ge_nth
proof (intro allI impI)
  fix i assume "Suc i < length (spread d ys)"
  then have i: "Suc i < length ys"
    by (simp add: length_spread)
  with assms have "ys ! i + g \<le> ys ! Suc i"
    by (simp add: gaps_ge_nth)
  with i show "spread d ys ! i + (g + d) \<le> spread d ys ! Suc i"
    by (simp add: spread_nth algebra_simps)
qed

lemma sorted_gaps: "sorted ys \<Longrightarrow> gaps_ge 0 ys"
  by (simp add: gaps_ge_nth sorted_iff_nth_Suc)

lemma strict_sorted_gaps:
  assumes "sorted_wrt (<) ys"
  shows "gaps_ge 1 ys"
  unfolding gaps_ge_nth
proof (intro allI impI)
  fix i assume "Suc i < length ys"
  with assms have "ys ! i < ys ! Suc i"
    by (simp add: sorted_wrt_iff_nth_less)
  then show "ys ! i + 1 \<le> ys ! Suc i"
    by simp
qed

lemma sort_expand:
  assumes "0 \<le> d"
  shows "sort (expand d xs) = spread d (sort xs)"
proof -
  have "gaps_ge (0 + d) (spread d (sort xs))"
    by (rule spread_gaps) (simp add: sorted_gaps)
  with assms have "sorted (spread d (sort xs))"
    by (simp add: gaps_ge_sorted)
  with mset_expand [of d xs] show ?thesis
    by (simp add: properties_for_sort)
qed

lemma expand_gaps:
  assumes "0 \<le> d"
  shows "gaps_ge d (sort (expand d xs))"
proof -
  have "gaps_ge (0 + d) (spread d (sort xs))"
    by (rule spread_gaps) (simp add: sorted_gaps)
  with assms show ?thesis
    by (simp add: sort_expand)
qed

lemma expand_gaps_strict:
  assumes "0 \<le> d" and "distinct xs"
  shows "gaps_ge (d + 1) (sort (expand d xs))"
proof -
  from assms(2) have "sorted_wrt (<) (sort xs)"
    by (simp add: strict_sorted_iff)
  then have "gaps_ge (1 + d) (spread d (sort xs))"
    by (intro spread_gaps strict_sorted_gaps)
  with assms(1) show ?thesis
    by (simp add: sort_expand add.commute)
qed

lemma distinct_expand:
  assumes "0 \<le> d" and "distinct xs"
  shows "distinct (expand d xs)"
proof -
  from assms have "gaps_ge (d + 1) (sort (expand d xs))"
    by (rule expand_gaps_strict)
  moreover from assms(1) have "0 < d + 1"
    by simp
  ultimately have "sorted_wrt (<) (sort (expand d xs))"
    by (rule gaps_ge_strict_sorted)
  then have "distinct (sort (expand d xs))"
    by (simp add: strict_sorted_iff)
  then show ?thesis
    by simp
qed

lemma rank_in_mset: "mset xs = mset ys \<Longrightarrow> rank_in xs x = rank_in ys x"
  by (metis rank_in_def mset_filter size_mset)

lemma rank_in_strict_sorted:
  assumes "sorted_wrt (<) ys" and "r < length ys"
  shows "rank_in ys (ys ! r) = r"
proof -
  have low: "filter (\<lambda>y. y < ys ! r) (take r ys) = take r ys"
  proof (rule filter_True, rule ballI)
    fix x assume "x \<in> set (take r ys)"
    then obtain t where "t < length (take r ys)" and "x = take r ys ! t"
      by (auto simp: in_set_conv_nth)
    with assms show "x < ys ! r"
      by (simp add: sorted_wrt_iff_nth_less)
  qed
  have high: "filter (\<lambda>y. y < ys ! r) (drop r ys) = []"
  proof (rule filter_False, rule ballI)
    fix x assume "x \<in> set (drop r ys)"
    then obtain t where t: "t < length (drop r ys)" and x: "x = drop r ys ! t"
      by (auto simp: in_set_conv_nth)
    from assms(1) have "sorted ys"
      by (rule strict_sorted_imp_sorted)
    with t have "ys ! r \<le> ys ! (r + t)"
      by (simp add: sorted_iff_nth_mono)
    with x t show "\<not> x < ys ! r"
      by simp
  qed
  have "rank_in ys (ys ! r) = length (filter (\<lambda>y. y < ys ! r) (take r ys @ drop r ys))"
    by (simp add: rank_in_def)
  also have "\<dots> = length (take r ys)"
    by (simp only: filter_append low high append_Nil2)
  finally show ?thesis
    using assms(2) by simp
qed

lemma ranks_of_rank_in:
  assumes "distinct xs" and "i < length xs"
  shows "ranks_of xs ! i = rank_in xs (xs ! i)"
proof -
  let ?r = "ranks_of xs ! i"
  from assms(2) have "?r \<in> set (ranks_of xs)"
    by (simp add: length_ranks_of)
  then have r: "?r < length (sort xs)"
    by (simp add: set_ranks_of)
  from assms(2) have "map (\<lambda>r. sort xs ! r) (ranks_of xs) ! i = sort xs ! ?r"
    by (simp add: length_ranks_of)
  then have eq: "xs ! i = sort xs ! ?r"
    by (simp only: ranks_of_sorted_nth)
  from assms(1) have "sorted_wrt (<) (sort xs)"
    by (simp add: strict_sorted_iff)
  from rank_in_strict_sorted [OF this r] have "rank_in (sort xs) (sort xs ! ?r) = ?r" .
  moreover have "rank_in xs (xs ! i) = rank_in (sort xs) (xs ! i)"
    by (rule rank_in_mset) simp
  ultimately show ?thesis
    by (simp add: eq)
qed

lemma rank_in_mono: "x \<le> y \<Longrightarrow> rank_in xs x \<le> rank_in xs y"
  unfolding rank_in_def by (induction xs) auto

subsection \<open>The call to \<open>random.sample\<close>\<close>

lemma sys_maxsize_nonneg: "0 \<le> sys_maxsize"
  by (simp add: sys_maxsize_def)

lemma len_overflow: "sys_maxsize < range_len r \<Longrightarrow> len r = Inl OverflowError"
  by (simp add: len_def)

lemma len_fits: "range_len r \<le> sys_maxsize \<Longrightarrow> len r = Inr (range_len r)"
  by (simp add: len_def)

lemma sample_overflow:
  assumes "sys_maxsize < range_len population"
  shows "sample pick population k g = (Inl OverflowError, g)"
  using assms by (simp add: sample_def len_overflow)

lemma sample_fails:
  assumes "range_len population \<le> sys_maxsize"
    and "k < 0 \<or> range_len population < k"
  shows "sample pick population k g = (Inl ValueError, g)"
  using assms by (auto simp: sample_def len_fits)

lemma sample_picks:
  assumes "range_len population \<le> sys_maxsize"
    and "0 \<le> k" and "k \<le> range_len population"
  shows "sample pick population k g = pick g population (nat k)"
  using assms by (simp add: sample_def len_fits)

lemma smd_overflow:
  assumes "\<not> fits_ssize n k d"
  shows "sample_with_minimum_distance pick n k d g = (Inl OverflowError, g)"
proof -
  from assms have "sys_maxsize < range_len (Range 1 (n - (k - 1) * d))"
    by (simp only: fits_ssize_def not_le)
  then show ?thesis
    by (simp add: sample_with_minimum_distance_def sample_overflow)
qed

lemma smd_fails:
  assumes "fits_ssize n k d" and "k < 0 \<or> (0 < k \<and> n - (k - 1) * d \<le> k)"
  shows "sample_with_minimum_distance pick n k d g = (Inl ValueError, g)"
proof -
  from assms(1) have fit: "range_len (Range 1 (n - (k - 1) * d)) \<le> sys_maxsize"
    by (simp add: fits_ssize_def)
  from assms(2) have "k < 0 \<or> range_len (Range 1 (n - (k - 1) * d)) < k"
    by auto
  with fit show ?thesis
    by (simp add: sample_with_minimum_distance_def sample_fails)
qed

lemma smd_picks:
  assumes "fits_ssize n k d" and "k = 0 \<or> (0 < k \<and> k < n - (k - 1) * d)"
  shows "sample_with_minimum_distance pick n k d g =
           (case pick g (Range 1 (n - (k - 1) * d)) (nat k) of
              (Inl e, g') \<Rightarrow> (Inl e, g')
            | (Inr sampl, g') \<Rightarrow> (Inr (expand d sampl), g'))"
proof -
  from assms(1) have fit: "range_len (Range 1 (n - (k - 1) * d)) \<le> sys_maxsize"
    by (simp add: fits_ssize_def)
  from assms(2) have "0 \<le> k" and "k \<le> range_len (Range 1 (n - (k - 1) * d))"
    by auto
  with fit show ?thesis
    by (simp add: sample_with_minimum_distance_def sample_picks)
qed

text \<open>
  The three ways the function can go: \<open>len\<close> of the range overflows; the size check of
  \<open>random.sample\<close> fails; or the selection step runs and its outcome decides.
\<close>

lemma smd_cases:
  "sample_with_minimum_distance pick n k d g = (Inl OverflowError, g) \<and> \<not> fits_ssize n k d \<or>
   sample_with_minimum_distance pick n k d g = (Inl ValueError, g) \<and> fits_ssize n k d \<and>
     (k < 0 \<or> (0 < k \<and> n - (k - 1) * d \<le> k)) \<or>
   sample_with_minimum_distance pick n k d g =
     (case pick g (Range 1 (n - (k - 1) * d)) (nat k) of
        (Inl e, g') \<Rightarrow> (Inl e, g')
      | (Inr sampl, g') \<Rightarrow> (Inr (expand d sampl), g')) \<and> fits_ssize n k d \<and>
     (k = 0 \<or> (0 < k \<and> k < n - (k - 1) * d))"
proof (cases "fits_ssize n k d")
  case False
  then show ?thesis
    by (simp add: smd_overflow)
next
  case fit: True
  show ?thesis
  proof (cases "k < 0 \<or> (0 < k \<and> n - (k - 1) * d \<le> k)")
    case True
    with fit show ?thesis
      by (simp add: smd_fails)
  next
    case False
    then have "k = 0 \<or> (0 < k \<and> k < n - (k - 1) * d)"
      by auto
    with fit show ?thesis
      by (simp add: smd_picks)
  qed
qed

lemma smd_returned:
  assumes "fst (sample_with_minimum_distance pick n k d g) = Inr out"
  shows "fits_ssize n k d \<and> (\<exists>xs. drawn pick n k d g = Inr xs \<and> out = expand d xs)"
  using smd_cases [of pick n k d g] assms
  by (auto simp: drawn_def split: prod.splits sum.splits)

lemma valid_returns:
  assumes "valid_params n k d" and "fits_ssize n k d" and "drawn pick n k d g = Inr xs"
  shows "fst (sample_with_minimum_distance pick n k d g) = Inr (expand d xs)"
proof -
  from assms(1) have "k = 0 \<or> (0 < k \<and> k < n - (k - 1) * d)"
    by (auto simp: valid_params_def)
  from smd_picks [OF assms(2) this, of pick g] assms(3) show ?thesis
    by (simp add: drawn_def split: prod.splits sum.splits)
qed

lemma honest_drawD:
  assumes "honest_draw pick n k d g"
  shows "\<exists>xs. drawn pick n k d g = Inr xs \<and> int (length xs) = k \<and> distinct xs \<and>
           set xs \<subseteq> {1..<n - (k - 1) * d}"
proof (cases "drawn pick n k d g")
  case (Inl e)
  with assms show ?thesis
    by (simp add: honest_draw_def)
next
  case (Inr xs)
  with assms have "is_sample_of (Range 1 (n - (k - 1) * d)) k xs"
    by (simp add: honest_draw_def)
  then have "int (length xs) = k \<and> distinct xs \<and> set xs \<subseteq> {1..<n - (k - 1) * d}"
    by (auto simp: is_sample_of_def list_all_iff)
  with Inr show ?thesis
    by blast
qed

subsection \<open>\<open>load_fasta\<close>\<close>

lemma load_fasta_try_body:
  "load_fasta resolve Fasta fname =
     (case try_body resolve Fasta fname of
        Inr fasta \<Rightarrow> Inr fasta
      | Inl ValueError \<Rightarrow>
          Inl (FastaDuplicateHeaderError (''Fasta '' @ fname @ '' contains duplicate header''))
      | Inl OverflowError \<Rightarrow> Inl (Uncaught OverflowError)
      | Inl (OtherException e) \<Rightarrow> Inl (Uncaught (OtherException e)))"
  by (simp add: load_fasta_def split: sum.splits lib_exn.splits)

lemma try_body_resolved: "resolve fname = Inr path \<Longrightarrow> try_body resolve Fasta fname = Fasta path"
  by (simp add: try_body_def)

lemma try_body_unresolved: "resolve fname = Inl e \<Longrightarrow> try_body resolve Fasta fname = Inl e"
  by (simp add: try_body_def)

text \<open>
  Claim C10 (amended). With path resolution and the parser as oracles: whenever the path
  resolves, \<open>load_fasta\<close> returns the parser's result exactly when the parser returns
  it, raises \<open>FastaDuplicateHeaderError\<close> exactly when the parser raises \<open>ValueError\<close>,
  and lets any other exception of the parser through unchanged; these are all the
  outcomes.
\<close>

theorem load_fasta_outcomes:
  assumes "resolve fname = Inr path"
  shows "(load_fasta resolve Fasta fname = Inr v \<longleftrightarrow> Fasta path = Inr v) \<and>
         ((\<exists>msg. load_fasta resolve Fasta fname = Inl (FastaDuplicateHeaderError msg)) \<longleftrightarrow>
            Fasta path = Inl ValueError) \<and>
         (load_fasta resolve Fasta fname = Inl (Uncaught e) \<longleftrightarrow>
            e \<noteq> ValueError \<and> Fasta path = Inl e) \<and>
         ((\<exists>fasta. load_fasta resolve Fasta fname = Inr fasta) \<or>
          (\<exists>msg. load_fasta resolve Fasta fname = Inl (FastaDuplicateHeaderError msg)) \<or>
          (\<exists>x. x \<noteq> ValueError \<and> load_fasta resolve Fasta fname = Inl (Uncaught x)))"
proof -
  have body: "try_body resolve Fasta fname = Fasta path"
    using assms by (rule try_body_resolved)
  show ?thesis
  proof (cases "Fasta path")
    case (Inr fasta)
    with body show ?thesis
      by (simp add: load_fasta_def)
  next
    case (Inl x)
    with body show ?thesis
      by (cases "x = ValueError") (auto simp: load_fasta_def)
  qed
qed

theorem load_fasta_outcomes_witness:
  "toy_resolve ''dup.fa'' = Inr ''/data/dup.fa'' \<and>
   toy_Fasta ''/data/dup.fa'' = Inl ValueError \<and>
   (\<exists>msg. load_fasta toy_resolve toy_Fasta ''dup.fa'' = Inl (FastaDuplicateHeaderError msg)) \<and>
   toy_resolve ''a.fa'' = Inr ''/data/a.fa'' \<and>
   toy_Fasta ''/data/a.fa'' = Inr 10 \<and>
   load_fasta toy_resolve toy_Fasta ''a.fa'' = Inr 10 \<and>
   toy_resolve ''missing.fa'' = Inr ''/data/missing.fa'' \<and>
   toy_Fasta ''/data/missing.fa'' = Inl (OtherException ''FastaNotFoundError'') \<and>
   load_fasta toy_resolve toy_Fasta ''missing.fa''
     = Inl (Uncaught (OtherException ''FastaNotFoundError''))"
proof -
  have r1: "toy_resolve ''dup.fa'' = Inr ''/data/dup.fa''"
    and r2: "toy_resolve ''a.fa'' = Inr ''/data/a.fa''"
    and r3: "toy_resolve ''missing.fa'' = Inr ''/data/missing.fa''"
    by (simp_all add: toy_resolve_def)
  have p1: "toy_Fasta ''/data/dup.fa'' = Inl ValueError"
    and p2: "toy_Fasta ''/data/a.fa'' = Inr 10"
    and p3: "toy_Fasta ''/data/missing.fa'' = Inl (OtherException ''FastaNotFoundError'')"
    by (simp_all add: toy_Fasta_def)
  note t1 = load_fasta_outcomes
    [of toy_resolve "''dup.fa''" "''/data/dup.fa''" toy_Fasta 0 ValueError, OF r1]
  note t2 = load_fasta_outcomes
    [of toy_resolve "''a.fa''" "''/data/a.fa''" toy_Fasta 10 ValueError, OF r2]
  note t3 = load_fasta_outcomes
    [of toy_resolve "''missing.fa''" "''/data/missing.fa''" toy_Fasta 0
        "OtherException ''FastaNotFoundError''", OF r3]
  from p1 t1 have a: "\<exists>msg. load_fasta toy_resolve toy_Fasta ''dup.fa''
                         = Inl (FastaDuplicateHeaderError msg)"
    by blast
  from p2 t2 have b: "load_fasta toy_resolve toy_Fasta ''a.fa'' = Inr 10"
    by blast
  from p3 t3 have c: "load_fasta toy_resolve toy_Fasta ''missing.fa''
                        = Inl (Uncaught (OtherException ''FastaNotFoundError''))"
    by simp
  from r1 p1 a r2 p2 b r3 p3 c show ?thesis
    by (intro conjI)
qed

text \<open>
  Path resolution runs inside the \<open>try\<close>: with a parser that never raises, a NUL
  character in the name gives \<open>FastaDuplicateHeaderError\<close>, and a \<open>RuntimeError\<close> of the
  resolution leaves the function as it is.
\<close>

theorem load_fasta_resolve_counterexample:
  "load_fasta toy_resolve always_parses [CHR ''a'', CHR 0x00]
     = Inl (FastaDuplicateHeaderError
              (''Fasta '' @ [CHR ''a'', CHR 0x00] @ '' contains duplicate header'')) \<and>
   load_fasta toy_resolve always_parses ''loop.fa''
     = Inl (Uncaught (OtherException ''RuntimeError''))"
  by (simp add: load_fasta_def try_body_def toy_resolve_def)

subsection \<open>Rejection\<close>

text \<open>
  Claim C2 (amended). Whenever \<open>n - (k - 1) * d \<le> k\<close> and \<open>k \<noteq> 0\<close>, the call fails, the
  generator state is returned untouched, so no draw took place, and no list is produced.
  The error is \<open>ValueError\<close>, from the size check of \<open>random.sample\<close>, when the range has
  at most \<open>sys.maxsize\<close> elements, and \<open>OverflowError\<close>, from \<open>len\<close> of the range,
  otherwise.
\<close>

theorem sample_rejects_small_range:
  assumes "n - (k - 1) * d \<le> k" and "k \<noteq> 0"
  shows "sample_with_minimum_distance pick n k d g =
           (Inl (if fits_ssize n k d then ValueError else OverflowError), g)"
proof (cases "fits_ssize n k d")
  case True
  moreover from assms have "k < 0 \<or> (0 < k \<and> n - (k - 1) * d \<le> k)"
    by auto
  ultimately show ?thesis
    by (simp add: smd_fails)
next
  case False
  then show ?thesis
    by (simp add: smd_overflow)
qed

theorem sample_rejects_small_range_witness:
  "(5::int) - (3 - 1) * 2 \<le> 3 \<and> (3::int) \<noteq> 0 \<and> fits_ssize 5 3 2 \<and>
   sample_with_minimum_distance rotating_pick 5 3 2 0 = (Inl ValueError, 0)"
proof -
  have h: "(5::int) - (3 - 1) * 2 \<le> 3" and h': "(3::int) \<noteq> 0"
    by simp_all
  have f: "fits_ssize 5 3 2"
    by (simp add: fits_ssize_def sys_maxsize_def)
  from sample_rejects_small_range [OF h h', of rotating_pick 0] f
  have "sample_with_minimum_distance rotating_pick 5 3 2 0 = (Inl ValueError, 0)"
    by simp
  with h h' f show ?thesis
    by (intro conjI)
qed

text \<open>
  For \<open>k = 0\<close> the size check can pass although \<open>n - (k - 1) * d \<le> k\<close>:
  \<open>sample_with_minimum_distance(0, 0, 0)\<close> returns the empty list. And the error need
  not come from the size check: at \<open>(2^63 + 1, 2^63 + 1, 0)\<close> it is \<open>OverflowError\<close>.
\<close>

theorem sample_accepts_zero_k_counterexample:
  "(0::int) - (0 - 1) * 0 \<le> 0 \<and>
   sample_with_minimum_distance rotating_pick 0 0 0 0 = (Inr [], 1) \<and>
   (2 ^ 63 + 1 :: int) - (2 ^ 63 + 1 - 1) * 0 \<le> 2 ^ 63 + 1 \<and>
   sample_with_minimum_distance rotating_pick (2 ^ 63 + 1) (2 ^ 63 + 1) 0 0
     = (Inl OverflowError, 0)"
proof -
  have a: "sample_with_minimum_distance rotating_pick 0 0 0 0 = (Inr [], 1)"
    by code_simp
  have b: "sample_with_minimum_distance rotating_pick (2 ^ 63 + 1) (2 ^ 63 + 1) 0 0
             = (Inl OverflowError, 0)"
    by (rule smd_overflow) (simp add: fits_ssize_def sys_maxsize_def)
  from a b show ?thesis
    by simp
qed

text \<open>
  Claim C3 (amended). The call fails, without a draw and without output, whenever
  \<open>k < 0\<close>, and whenever \<open>n \<le> 0\<close> with \<open>k \<ge> 1\<close> and \<open>d \<ge> 0\<close>. The error is \<open>ValueError\<close>
  when the range has at most \<open>sys.maxsize\<close> elements, which is always so in the second
  case, and \<open>OverflowError\<close> otherwise.
\<close>

theorem sample_rejects_negative_k:
  assumes "k < 0 \<or> (n \<le> 0 \<and> 0 \<le> d \<and> 0 < k)"
  shows "sample_with_minimum_distance pick n k d g =
           (Inl (if fits_ssize n k d then ValueError else OverflowError), g) \<and>
         (0 < k \<longrightarrow> fits_ssize n k d)"
proof -
  have small: "n - (k - 1) * d \<le> 0" if "n \<le> 0" and "0 \<le> d" and "0 < k"
  proof -
    from that have "0 \<le> (k - 1) * d"
      by simp
    with that show ?thesis
      by linarith
  qed
  have fit: "fits_ssize n k d" if "0 < k"
  proof -
    from that assms small have "n - (k - 1) * d \<le> 0"
      by auto
    then show ?thesis
      using sys_maxsize_nonneg by (simp add: fits_ssize_def)
  qed
  from assms small have rej: "k < 0 \<or> (0 < k \<and> n - (k - 1) * d \<le> k)"
    by fastforce
  have "sample_with_minimum_distance pick n k d g =
          (Inl (if fits_ssize n k d then ValueError else OverflowError), g)"
  proof (cases "fits_ssize n k d")
    case True
    with rej show ?thesis
      by (simp add: smd_fails)
  next
    case False
    then show ?thesis
      by (simp add: smd_overflow)
  qed
  with fit show ?thesis
    by blast
qed

theorem sample_rejects_negative_k_witness:
  "((-1::int) < 0 \<or> ((5::int) \<le> 0 \<and> (0::int) \<le> 2 \<and> (0::int) < -1)) \<and>
   fits_ssize 5 (-1) 2 \<and>
   sample_with_minimum_distance rotating_pick 5 (-1) 2 0 = (Inl ValueError, 0)"
proof -
  have h: "(-1::int) < 0 \<or> ((5::int) \<le> 0 \<and> (0::int) \<le> 2 \<and> (0::int) < -1)"
    by simp
  have f: "fits_ssize 5 (-1) 2"
    by (simp add: fits_ssize_def sys_maxsize_def)
  from sample_rejects_negative_k [OF h, of rotating_pick 0] f
  have "sample_with_minimum_distance rotating_pick 5 (-1) 2 0 = (Inl ValueError, 0)"
    by simp
  with h f show ?thesis
    by (intro conjI)
qed

text \<open>
  A negative \<open>d\<close> is not rejected: \<open>sample_with_minimum_distance(5, 1, -1)\<close> returns a
  value. And for \<open>k < 0\<close> the error can be \<open>OverflowError\<close>, as at \<open>(2^64, -1, 0)\<close>.
\<close>

theorem sample_accepts_negative_d_counterexample:
  "(-1::int) < 0 \<and>
   sample_with_minimum_distance rotating_pick 5 1 (-1) 0 = (Inr [1], 1) \<and>
   sample_with_minimum_distance rotating_pick (2 ^ 64) (-1) 0 0 = (Inl OverflowError, 0)"
proof -
  have a: "sample_with_minimum_distance rotating_pick 5 1 (-1) 0 = (Inr [1], 1)"
    by code_simp
  have b: "sample_with_minimum_distance rotating_pick (2 ^ 64) (-1) 0 0
             = (Inl OverflowError, 0)"
    by (rule smd_overflow) (simp add: fits_ssize_def sys_maxsize_def)
  from a b show ?thesis
    by simp
qed

subsection \<open>Results of a valid call\<close>

text \<open>
  A valid call returns a list exactly when the range has at most \<open>sys.maxsize\<close>
  elements and the selection step hands one back; with a larger range it raises
  \<open>OverflowError\<close>.
\<close>

lemma honest_returns:
  assumes "valid_params n k d" and "fits_ssize n k d" and "honest_draw pick n k d g"
  shows "\<exists>out. fst (sample_with_minimum_distance pick n k d g) = Inr out"
proof -
  from honest_drawD [OF assms(3)] obtain xs where "drawn pick n k d g = Inr xs"
    by blast
  from valid_returns [OF assms(1,2) this] show ?thesis
    by blast
qed

lemma honest_returned:
  assumes "honest_draw pick n k d g"
    and "fst (sample_with_minimum_distance pick n k d g) = Inr out"
  shows "\<exists>xs. out = expand d xs \<and> int (length xs) = k \<and> distinct xs \<and>
           set xs \<subseteq> {1..<n - (k - 1) * d}"
proof -
  from smd_returned [OF assms(2)] obtain xs where xs: "drawn pick n k d g = Inr xs"
    and out: "out = expand d xs"
    by blast
  from honest_drawD [OF assms(1)] xs
  have "int (length xs) = k \<and> distinct xs \<and> set xs \<subseteq> {1..<n - (k - 1) * d}"
    by auto
  with out show ?thesis
    by blast
qed

text \<open>
  Claim C4. For valid \<open>(n, k, d)\<close>, in every returned list, sorted ascending, each
  adjacent pair differs by at least \<open>d\<close>. A list is returned when the range fits and
  the draw is delivered; with a range beyond \<open>sys.maxsize\<close> the call raises
  \<open>OverflowError\<close>.
\<close>

theorem sample_spacing:
  assumes "valid_params n k d"
  shows "(\<forall>out. fst (sample_with_minimum_distance pick n k d g) = Inr out \<longrightarrow>
            list_all (\<lambda>(a, b). d \<le> b - a) (pairwise (sort out)) \<and>
            (\<forall>i. Suc i < length out \<longrightarrow> d \<le> sort out ! Suc i - sort out ! i)) \<and>
         (fits_ssize n k d \<and> honest_draw pick n k d g \<longrightarrow>
            (\<exists>out. fst (sample_with_minimum_distance pick n k d g) = Inr out)) \<and>
         (\<not> fits_ssize n k d \<longrightarrow>
            sample_with_minimum_distance pick n k d g = (Inl OverflowError, g))"
proof (intro conjI allI impI)
  from assms have d: "0 \<le> d"
    by (simp add: valid_params_def)
  fix out assume "fst (sample_with_minimum_distance pick n k d g) = Inr out"
  from smd_returned [OF this] obtain xs where out: "out = expand d xs"
    by blast
  from d have gaps: "gaps_ge d (sort (expand d xs))"
    by (rule expand_gaps)
  with out show "list_all (\<lambda>(a, b). d \<le> b - a) (pairwise (sort out))"
    by (simp add: gaps_ge_def)
  fix i assume "Suc i < length out"
  with gaps out show "d \<le> sort out ! Suc i - sort out ! i"
    by (simp add: gaps_ge_nth algebra_simps)
next
  assume "fits_ssize n k d \<and> honest_draw pick n k d g"
  with assms show "\<exists>out. fst (sample_with_minimum_distance pick n k d g) = Inr out"
    by (simp add: honest_returns)
next
  assume "\<not> fits_ssize n k d"
  then show "sample_with_minimum_distance pick n k d g = (Inl OverflowError, g)"
    by (rule smd_overflow)
qed

theorem sample_spacing_witness:
  "valid_params 10 3 2 \<and> fits_ssize 10 3 2 \<and> honest_draw rotating_pick 10 3 2 0 \<and>
   fst (sample_with_minimum_distance rotating_pick 10 3 2 0) = Inr [4, 7, 1] \<and>
   list_all (\<lambda>(a, b). 2 \<le> b - a) (pairwise (sort [4, 7, 1 :: int])) \<and>
   (\<exists>out. fst (sample_with_minimum_distance rotating_pick 10 3 2 0) = Inr out)"
proof -
  have v: "valid_params 10 3 2"
    by (simp add: valid_params_def)
  have f: "fits_ssize 10 3 2"
    by (simp add: fits_ssize_def sys_maxsize_def)
  have h: "honest_draw rotating_pick 10 3 2 0"
    by code_simp
  have e: "fst (sample_with_minimum_distance rotating_pick 10 3 2 0) = Inr [4, 7, 1]"
    by code_simp
  note t = sample_spacing [OF v, of rotating_pick 0]
  from t e have p: "list_all (\<lambda>(a, b). 2 \<le> b - a) (pairwise (sort [4, 7, 1 :: int]))"
    by blast
  from t f h have r: "\<exists>out. fst (sample_with_minimum_distance rotating_pick 10 3 2 0) = Inr out"
    by blast
  from v f h e p r show ?thesis
    by (intro conjI)
qed

text \<open>
  Claim C5 (amended). For valid \<open>(n, k, d)\<close> whose range \<open>range(1, n - (k - 1) * d)\<close> has
  at most \<open>sys.maxsize\<close> elements, and a draw that \<open>random.sample\<close> delivers, the call
  returns a list of exactly \<open>k\<close> elements, pairwise distinct. With a larger range it
  raises \<open>OverflowError\<close>.
\<close>

theorem sample_count_distinct:
  assumes "valid_params n k d"
  shows "(fits_ssize n k d \<and> honest_draw pick n k d g \<longrightarrow>
            (\<exists>out. fst (sample_with_minimum_distance pick n k d g) = Inr out \<and>
               int (length out) = k \<and> distinct out)) \<and>
         (\<not> fits_ssize n k d \<longrightarrow>
            sample_with_minimum_distance pick n k d g = (Inl OverflowError, g))"
proof (intro conjI impI)
  assume a: "fits_ssize n k d \<and> honest_draw pick n k d g"
  then have f: "fits_ssize n k d" and h: "honest_draw pick n k d g"
    by simp_all
  from assms have d: "0 \<le> d"
    by (simp add: valid_params_def)
  from honest_returns [OF assms f h] obtain out
    where out: "fst (sample_with_minimum_distance pick n k d g) = Inr out"
    by blast
  from honest_returned [OF h out] obtain xs where e: "out = expand d xs"
    and len: "int (length xs) = k" and dist: "distinct xs"
    by blast
  from d dist have "distinct (expand d xs)"
    by (rule distinct_expand)
  with out e len
  show "\<exists>out. fst (sample_with_minimum_distance pick n k d g) = Inr out \<and>
          int (length out) = k \<and> distinct out"
    by (simp add: length_expand)
next
  assume "\<not> fits_ssize n k d"
  then show "sample_with_minimum_distance pick n k d g = (Inl OverflowError, g)"
    by (rule smd_overflow)
qed

theorem sample_count_distinct_witness:
  "valid_params 10 3 2 \<and> fits_ssize 10 3 2 \<and> honest_draw rotating_pick 10 3 2 0 \<and>
   (\<exists>out. fst (sample_with_minimum_distance rotating_pick 10 3 2 0) = Inr out \<and>
      int (length out) = 3 \<and> distinct out)"
proof -
  have v: "valid_params 10 3 2"
    by (simp add: valid_params_def)
  have f: "fits_ssize 10 3 2"
    by (simp add: fits_ssize_def sys_maxsize_def)
  have h: "honest_draw rotating_pick 10 3 2 0"
    by code_simp
  from sample_count_distinct [OF v, of rotating_pick 0] f h
  have "\<exists>out. fst (sample_with_minimum_distance rotating_pick 10 3 2 0) = Inr out \<and>
          int (length out) = 3 \<and> distinct out"
    by blast
  with v f h show ?thesis
    by (intro conjI)
qed

text \<open>
  \<open>(2^63 + 5, 1, 0)\<close> is valid, and the call raises \<open>OverflowError\<close> instead of returning
  one element.
\<close>

theorem sample_count_overflow_counterexample:
  "valid_params (2 ^ 63 + 5) 1 0 \<and>
   sample_with_minimum_distance rotating_pick (2 ^ 63 + 5) 1 0 0 = (Inl OverflowError, 0)"
proof -
  have v: "valid_params (2 ^ 63 + 5) 1 0"
    by (simp add: valid_params_def)
  have b: "sample_with_minimum_distance rotating_pick (2 ^ 63 + 5) 1 0 0
             = (Inl OverflowError, 0)"
    by (rule smd_overflow) (simp add: fits_ssize_def sys_maxsize_def)
  from v b show ?thesis
    by (intro conjI)
qed

text \<open>
  Claim C6. For valid \<open>(n, k, d)\<close> every value \<open>v\<close> of a returned list satisfies
  \<open>1 \<le> v \<le> n - 1\<close>; neither \<open>0\<close> nor \<open>n\<close> is returned. A list is returned when the
  range fits; otherwise the call raises \<open>OverflowError\<close>.
\<close>

theorem sample_range:
  assumes "valid_params n k d" and "honest_draw pick n k d g"
  shows "(\<forall>out. fst (sample_with_minimum_distance pick n k d g) = Inr out \<longrightarrow>
            (\<forall>v \<in> set out. 1 \<le> v \<and> v \<le> n - 1 \<and> v \<noteq> 0 \<and> v \<noteq> n)) \<and>
         (fits_ssize n k d \<longrightarrow>
            (\<exists>out. fst (sample_with_minimum_distance pick n k d g) = Inr out)) \<and>
         (\<not> fits_ssize n k d \<longrightarrow>
            sample_with_minimum_distance pick n k d g = (Inl OverflowError, g))"
proof (intro conjI allI impI ballI)
  from assms(1) have d: "0 \<le> d"
    by (simp add: valid_params_def)
  fix out v
  assume "fst (sample_with_minimum_distance pick n k d g) = Inr out" and v: "v \<in> set out"
  from honest_returned [OF assms(2) this(1)] obtain xs where e: "out = expand d xs"
    and len: "int (length xs) = k" and sub: "set xs \<subseteq> {1..<n - (k - 1) * d}"
    by blast
  from v e have "v \<in> set (spread d (sort xs))"
    using mset_eq_setD [OF mset_expand [of d xs]] by simp
  then obtain r where r: "r < length xs" and vr: "v = sort xs ! r + d * int r"
    by (auto simp: spread_def)
  from r have "sort xs ! r \<in> set (sort xs)"
    by (intro nth_mem) simp
  with sub have lo: "1 \<le> sort xs ! r" and hi: "sort xs ! r < n - (k - 1) * d"
    by auto
  from r len have "int r \<le> k - 1"
    by simp
  from this d have up: "d * int r \<le> d * (k - 1)"
    by (rule mult_left_mono)
  from d have "0 \<le> d * int r"
    by simp
  with lo hi up vr have "1 \<le> v" and "v \<le> n - 1"
    by (simp_all add: algebra_simps)
  then show "1 \<le> v" and "v \<le> n - 1" and "v \<noteq> 0" and "v \<noteq> n"
    by simp_all
next
  assume "fits_ssize n k d"
  with assms show "\<exists>out. fst (sample_with_minimum_distance pick n k d g) = Inr out"
    by (simp add: honest_returns)
next
  assume "\<not> fits_ssize n k d"
  then show "sample_with_minimum_distance pick n k d g = (Inl OverflowError, g)"
    by (rule smd_overflow)
qed

theorem sample_range_witness:
  "valid_params 10 3 2 \<and> honest_draw rotating_pick 10 3 2 0 \<and> fits_ssize 10 3 2 \<and>
   fst (sample_with_minimum_distance rotating_pick 10 3 2 0) = Inr [4, 7, 1] \<and>
   (\<exists>out. fst (sample_with_minimum_distance rotating_pick 10 3 2 0) = Inr out \<and>
      (\<forall>v \<in> set out. 1 \<le> v \<and> v \<le> 10 - 1 \<and> v \<noteq> 0 \<and> v \<noteq> 10))"
proof -
  have v: "valid_params 10 3 2"
    by (simp add: valid_params_def)
  have f: "fits_ssize 10 3 2"
    by (simp add: fits_ssize_def sys_maxsize_def)
  have h: "honest_draw rotating_pick 10 3 2 0"
    by code_simp
  have e: "fst (sample_with_minimum_distance rotating_pick 10 3 2 0) = Inr [4, 7, 1]"
    by code_simp
  note t = sample_range [OF v h]
  from t e
  have p: "\<exists>out. fst (sample_with_minimum_distance rotating_pick 10 3 2 0) = Inr out \<and>
             (\<forall>v \<in> set out. 1 \<le> v \<and> v \<le> 10 - 1 \<and> v \<noteq> 0 \<and> v \<noteq> 10)"
    by blast
  from v h f e p show ?thesis
    by (intro conjI)
qed

subsection \<open>Distance between any two returned values\<close>

lemma gaps_ge_apart:
  assumes "gaps_ge g zs" and "0 < g" and "i < j" and "j < length zs"
  shows "g \<le> zs ! j - zs ! i"
proof -
  from gaps_ge_far [OF assms(1) assms(4)] assms(3)
  have "zs ! i + g * int (j - i) \<le> zs ! j"
    by simp
  moreover from assms(3) have "1 \<le> int (j - i)"
    by simp
  with assms(2) have "g * 1 \<le> g * int (j - i)"
    by (intro mult_left_mono) simp_all
  ultimately show ?thesis
    by simp
qed

lemma expand_far_apart:
  assumes "0 \<le> d" and "distinct xs"
    and "a \<in> set (expand d xs)" and "b \<in> set (expand d xs)" and "a \<noteq> b"
  shows "d + 1 \<le> \<bar>b - a\<bar>"
proof -
  let ?zs = "sort (expand d xs)"
  from assms(1,2) have gaps: "gaps_ge (d + 1) ?zs"
    by (rule expand_gaps_strict)
  from assms(1) have pos: "0 < d + 1"
    by simp
  from assms(3) have "a \<in> set ?zs"
    by simp
  then obtain i where i: "i < length ?zs" and a: "a = ?zs ! i"
    unfolding in_set_conv_nth by blast
  from assms(4) have "b \<in> set ?zs"
    by simp
  then obtain j where j: "j < length ?zs" and b: "b = ?zs ! j"
    unfolding in_set_conv_nth by blast
  from assms(5) a b have "i < j \<or> j < i"
    by (cases i j rule: linorder_cases) auto
  then show ?thesis
  proof
    assume "i < j"
    from gaps_ge_apart [OF gaps pos this j] a b show ?thesis
      by simp
  next
    assume "j < i"
    from gaps_ge_apart [OF gaps pos this i] a b show ?thesis
      by simp
  qed
qed

text \<open>
  Claim C8. For valid \<open>(n, k, d)\<close> (in particular \<open>d \<ge> 0\<close>; the statement is empty for
  \<open>k < 2\<close>) every returned list, sorted ascending, has adjacent elements at least \<open>d + 1\<close>
  apart, and no two returned values are exactly \<open>d\<close> apart: any two of them differ by
  at least \<open>d + 1\<close>. A list is returned when the range fits; otherwise the call raises
  \<open>OverflowError\<close>.
\<close>

theorem sample_spacing_strict:
  assumes "valid_params n k d" and "honest_draw pick n k d g"
  shows "(\<forall>out. fst (sample_with_minimum_distance pick n k d g) = Inr out \<longrightarrow>
            list_all (\<lambda>(a, b). d + 1 \<le> b - a) (pairwise (sort out)) \<and>
            (\<forall>a \<in> set out. \<forall>b \<in> set out.
               a \<noteq> b \<longrightarrow> d + 1 \<le> \<bar>b - a\<bar> \<and> b - a \<noteq> d)) \<and>
         (fits_ssize n k d \<longrightarrow>
            (\<exists>out. fst (sample_with_minimum_distance pick n k d g) = Inr out)) \<and>
         (\<not> fits_ssize n k d \<longrightarrow>
            sample_with_minimum_distance pick n k d g = (Inl OverflowError, g))"
proof (intro conjI allI impI)
  from assms(1) have d: "0 \<le> d"
    by (simp add: valid_params_def)
  fix out assume "fst (sample_with_minimum_distance pick n k d g) = Inr out"
  from honest_returned [OF assms(2) this] obtain xs where e: "out = expand d xs"
    and dist: "distinct xs"
    by blast
  from d dist have "gaps_ge (d + 1) (sort (expand d xs))"
    by (rule expand_gaps_strict)
  with e show "list_all (\<lambda>(a, b). d + 1 \<le> b - a) (pairwise (sort out))"
    by (simp add: gaps_ge_def)
  have "d + 1 \<le> \<bar>b - a\<bar> \<and> b - a \<noteq> d"
    if "a \<in> set (expand d xs)" and "b \<in> set (expand d xs)" and "a \<noteq> b" for a b
  proof -
    from expand_far_apart [OF d dist that] have "d + 1 \<le> \<bar>b - a\<bar>" .
    with d show ?thesis
      by auto
  qed
  with e show "\<forall>a \<in> set out. \<forall>b \<in> set out.
                 a \<noteq> b \<longrightarrow> d + 1 \<le> \<bar>b - a\<bar> \<and> b - a \<noteq> d"
    by blast
next
  assume "fits_ssize n k d"
  with assms show "\<exists>out. fst (sample_with_minimum_distance pick n k d g) = Inr out"
    by (simp add: honest_returns)
next
  assume "\<not> fits_ssize n k d"
  then show "sample_with_minimum_distance pick n k d g = (Inl OverflowError, g)"
    by (rule smd_overflow)
qed

theorem sample_spacing_strict_witness:
  "valid_params 10 3 2 \<and> honest_draw rotating_pick 10 3 2 0 \<and> fits_ssize 10 3 2 \<and>
   fst (sample_with_minimum_distance rotating_pick 10 3 2 0) = Inr [4, 7, 1] \<and>
   (\<exists>out. fst (sample_with_minimum_distance rotating_pick 10 3 2 0) = Inr out \<and>
      list_all (\<lambda>(a, b). 2 + 1 \<le> b - a) (pairwise (sort out)) \<and>
      (\<forall>a \<in> set out. \<forall>b \<in> set out. a \<noteq> b \<longrightarrow> 2 + 1 \<le> \<bar>b - a\<bar> \<and> b - a \<noteq> 2))"
proof -
  have v: "valid_params 10 3 2"
    by (simp add: valid_params_def)
  have f: "fits_ssize 10 3 2"
    by (simp add: fits_ssize_def sys_maxsize_def)
  have h: "honest_draw rotating_pick 10 3 2 0"
    by code_simp
  have e: "fst (sample_with_minimum_distance rotating_pick 10 3 2 0) = Inr [4, 7, 1]"
    by code_simp
  note t = sample_spacing_strict [OF v h]
  from t [THEN conjunct1, rule_format, OF e] e
  have p: "\<exists>out. fst (sample_with_minimum_distance rotating_pick 10 3 2 0) = Inr out \<and>
             list_all (\<lambda>(a, b). 2 + 1 \<le> b - a) (pairwise (sort out)) \<and>
             (\<forall>a \<in> set out. \<forall>b \<in> set out.
                a \<noteq> b \<longrightarrow> 2 + 1 \<le> \<bar>b - a\<bar> \<and> b - a \<noteq> 2)"
    by blast
  from v h f e p show ?thesis
    by (intro conjI)
qed

text \<open>
  Claim C7. For valid \<open>(n, k, d)\<close> and a draw \<open>raw\<close> of \<open>k\<close> distinct values of \<open>[1, m)\<close>,
  the \<open>i\<close>-th returned element is the \<open>i\<close>-th drawn value plus \<open>d\<close> times the 0-based
  ascending rank of that value among the drawn ones, and the returned list has the same
  relative order as the draw. The draw takes place and a list is returned when the range
  fits; otherwise the call raises \<open>OverflowError\<close>.
\<close>

theorem sample_rank_expansion:
  assumes "valid_params n k d" and "honest_draw pick n k d g"
  shows "(\<forall>out raw. fst (sample_with_minimum_distance pick n k d g) = Inr out \<and>
            drawn pick n k d g = Inr raw \<longrightarrow>
            length out = length raw \<and>
            (\<forall>i < length out. out ! i = raw ! i + d * int (rank_in raw (raw ! i))) \<and>
            (\<forall>i < length out. \<forall>j < length out. out ! i < out ! j \<longleftrightarrow> raw ! i < raw ! j)) \<and>
         (fits_ssize n k d \<longrightarrow>
            (\<exists>out raw. fst (sample_with_minimum_distance pick n k d g) = Inr out \<and>
               drawn pick n k d g = Inr raw)) \<and>
         (\<not> fits_ssize n k d \<longrightarrow>
            sample_with_minimum_distance pick n k d g = (Inl OverflowError, g))"
proof (rule conjI [OF _ conjI], intro allI impI)
  from assms(1) have d: "0 \<le> d"
    by (simp add: valid_params_def)
  fix out raw
  assume a: "fst (sample_with_minimum_distance pick n k d g) = Inr out \<and>
             drawn pick n k d g = Inr raw"
  then have ret: "fst (sample_with_minimum_distance pick n k d g) = Inr out"
    and raw: "drawn pick n k d g = Inr raw"
    by simp_all
  from smd_returned [OF ret] raw have out: "out = expand d raw"
    by auto
  from honest_drawD [OF assms(2)] raw have dist: "distinct raw"
    by auto
  have nth: "expand d raw ! i = raw ! i + d * int (rank_in raw (raw ! i))"
    if "i < length raw" for i
    using that by (simp add: expand_nth ranks_of_rank_in [OF dist])
  have up: "expand d raw ! i < expand d raw ! j"
    if "i < length raw" "j < length raw" "raw ! i < raw ! j" for i j
  proof -
    from that(3) have "rank_in raw (raw ! i) \<le> rank_in raw (raw ! j)"
      by (intro rank_in_mono) simp
    then have "int (rank_in raw (raw ! i)) \<le> int (rank_in raw (raw ! j))"
      by simp
    from this d have "d * int (rank_in raw (raw ! i)) \<le> d * int (rank_in raw (raw ! j))"
      by (rule mult_left_mono)
    with that show ?thesis
      by (simp add: nth)
  qed
  have down: "expand d raw ! j \<le> expand d raw ! i"
    if "i < length raw" "j < length raw" "\<not> raw ! i < raw ! j" for i j
  proof -
    from that(3) have le: "raw ! j \<le> raw ! i"
      by simp
    then have "int (rank_in raw (raw ! j)) \<le> int (rank_in raw (raw ! i))"
      by (simp add: rank_in_mono)
    from this d have "d * int (rank_in raw (raw ! j)) \<le> d * int (rank_in raw (raw ! i))"
      by (rule mult_left_mono)
    with that le show ?thesis
      by (simp add: nth)
  qed
  have len: "length out = length raw"
    by (simp add: out length_expand)
  have el: "\<forall>i < length out. out ! i = raw ! i + d * int (rank_in raw (raw ! i))"
    using nth by (simp add: out length_expand)
  have ord: "\<forall>i < length out. \<forall>j < length out. out ! i < out ! j \<longleftrightarrow> raw ! i < raw ! j"
    unfolding out using up down by (fastforce simp: length_expand)
  from len el ord
  show "length out = length raw \<and>
        (\<forall>i < length out. out ! i = raw ! i + d * int (rank_in raw (raw ! i))) \<and>
        (\<forall>i < length out. \<forall>j < length out. out ! i < out ! j \<longleftrightarrow> raw ! i < raw ! j)"
    by (intro conjI)
next
  show "fits_ssize n k d \<longrightarrow>
          (\<exists>out raw. fst (sample_with_minimum_distance pick n k d g) = Inr out \<and>
             drawn pick n k d g = Inr raw)"
  proof
  assume f: "fits_ssize n k d"
  from honest_drawD [OF assms(2)] obtain raw where raw: "drawn pick n k d g = Inr raw"
    by blast
  from valid_returns [OF assms(1) f raw] raw
  show "\<exists>out raw. fst (sample_with_minimum_distance pick n k d g) = Inr out \<and>
          drawn pick n k d g = Inr raw"
    by blast
  qed
next
  show "\<not> fits_ssize n k d \<longrightarrow>
          sample_with_minimum_distance pick n k d g = (Inl OverflowError, g)"
    by (simp add: smd_overflow)
qed

theorem sample_rank_expansion_witness:
  "valid_params 10 3 2 \<and> honest_draw rotating_pick 10 3 2 0 \<and> fits_ssize 10 3 2 \<and>
   drawn rotating_pick 10 3 2 0 = Inr [2, 3, 1] \<and>
   fst (sample_with_minimum_distance rotating_pick 10 3 2 0) = Inr [4, 7, 1] \<and>
   (\<exists>out raw. fst (sample_with_minimum_distance rotating_pick 10 3 2 0) = Inr out \<and>
      drawn rotating_pick 10 3 2 0 = Inr raw \<and> length out = length raw \<and>
      (\<forall>i < length out. out ! i = raw ! i + 2 * int (rank_in raw (raw ! i))) \<and>
      (\<forall>i < length out. \<forall>j < length out. out ! i < out ! j \<longleftrightarrow> raw ! i < raw ! j))"
proof -
  have v: "valid_params 10 3 2"
    by (simp add: valid_params_def)
  have f: "fits_ssize 10 3 2"
    by (simp add: fits_ssize_def sys_maxsize_def)
  have h: "honest_draw rotating_pick 10 3 2 0"
    by code_simp
  have r: "drawn rotating_pick 10 3 2 0 = Inr [2, 3, 1]"
    by code_simp
  have e: "fst (sample_with_minimum_distance rotating_pick 10 3 2 0) = Inr [4, 7, 1]"
    by code_simp
  note t = sample_rank_expansion [OF v h, THEN conjunct1, rule_format, OF conjI [OF e r]]
  from e r t
  have p: "\<exists>out raw. fst (sample_with_minimum_distance rotating_pick 10 3 2 0) = Inr out \<and>
             drawn rotating_pick 10 3 2 0 = Inr raw \<and> length out = length raw \<and>
             (\<forall>i < length out. out ! i = raw ! i + 2 * int (rank_in raw (raw ! i))) \<and>
             (\<forall>i < length out. \<forall>j < length out. out ! i < out ! j \<longleftrightarrow> raw ! i < raw ! j)"
    by blast
  from v h f r e p show ?thesis
    by (intro conjI)
qed

subsection \<open>Expansion as a map on sets\<close>

lemma strict_sorted_list_of_set_id:
  "sorted_wrt (<) zs \<Longrightarrow> sorted_list_of_set (set zs) = zs"
  by (simp add: sorted_list_of_set_sort_remdups strict_sorted_iff distinct_remdups_id
      sorted_sort_id)

lemma sorted_list_of_set_distinct: "distinct xs \<Longrightarrow> sorted_list_of_set (set xs) = sort xs"
  by (simp add: sorted_list_of_set_sort_remdups distinct_remdups_id)

lemma set_expand: "set (expand d xs) = set (spread d (sort xs))"
  by (rule mset_eq_setD) (rule mset_expand)

lemma expand_set_spread: "expand_set d S = set (spread d (sorted_list_of_set S))"
  by (simp add: expand_set_def set_expand sorted_sort_id)

lemma set_expand_expand_set:
  assumes "distinct xs"
  shows "set (expand d xs) = expand_set d (set xs)"
  using assms by (simp add: expand_set_spread set_expand sorted_list_of_set_distinct)

lemma length_squeeze: "length (squeeze d zs) = length zs"
  by (simp add: squeeze_def)

lemma squeeze_nth: "r < length zs \<Longrightarrow> squeeze d zs ! r = zs ! r - d * int r"
  by (simp add: squeeze_def)

lemma squeeze_spread: "squeeze d (spread d ys) = ys"
  by (rule nth_equalityI) (simp_all add: length_squeeze length_spread squeeze_nth spread_nth)

lemma spread_squeeze: "spread d (squeeze d zs) = zs"
  by (rule nth_equalityI) (simp_all add: length_squeeze length_spread squeeze_nth spread_nth)

lemma squeeze_gaps:
  assumes "gaps_ge g zs"
  shows "gaps_ge (g - d) (squeeze d zs)"
  unfolding gaps_ge_nth
proof (intro allI impI)
  fix i assume "Suc i < length (squeeze d zs)"
  then have i: "Suc i < length zs"
    by (simp add: length_squeeze)
  with assms have "zs ! i + g \<le> zs ! Suc i"
    by (simp add: gaps_ge_nth)
  with i show "squeeze d zs ! i + (g - d) \<le> squeeze d zs ! Suc i"
    by (simp add: squeeze_nth algebra_simps)
qed

lemma spread_range:
  assumes "0 \<le> d" and "set ys \<subseteq> {1..<m}"
  shows "set (spread d ys) \<subseteq> {1..<m + (int (length ys) - 1) * d}"
proof
  fix v assume "v \<in> set (spread d ys)"
  then obtain r where r: "r < length ys" and v: "v = ys ! r + d * int r"
    by (auto simp: spread_def)
  from assms(2) nth_mem [OF r] have "ys ! r \<in> {1..<m}"
    by (rule subsetD)
  then have lo: "1 \<le> ys ! r" and hi: "ys ! r < m"
    by simp_all
  from r have "int r \<le> int (length ys) - 1"
    by simp
  from this assms(1) have "d * int r \<le> d * (int (length ys) - 1)"
    by (rule mult_left_mono)
  moreover from assms(1) have "0 \<le> d * int r"
    by simp
  ultimately show "v \<in> {1..<m + (int (length ys) - 1) * d}"
    using lo hi v by (simp add: algebra_simps)
qed

lemma squeeze_range:
  assumes "0 \<le> d" and "gaps_ge (d + 1) zs" and "set zs \<subseteq> {1..<n}"
  shows "set (squeeze d zs) \<subseteq> {1..<n - (int (length zs) - 1) * d}"
proof
  fix v assume "v \<in> set (squeeze d zs)"
  then obtain r where r: "r < length zs" and v: "v = zs ! r - d * int r"
    by (auto simp: squeeze_def)
  let ?K = "length zs"
  from r have z: "0 < ?K" and last: "?K - 1 < ?K"
    by linarith+
  from assms(3) nth_mem [OF z] have "zs ! 0 \<in> {1..<n}"
    by (rule subsetD)
  then have first_lo: "1 \<le> zs ! 0"
    by simp
  from assms(3) nth_mem [OF last] have "zs ! (?K - 1) \<in> {1..<n}"
    by (rule subsetD)
  then have last_hi: "zs ! (?K - 1) < n"
    by simp
  from gaps_ge_far [OF assms(2) r, of 0]
  have "zs ! 0 + (d + 1) * int r \<le> zs ! r"
    by simp
  with first_lo have lo: "1 \<le> zs ! r - d * int r"
    by (simp add: algebra_simps)
  from r have le: "r \<le> ?K - 1"
    by simp
  from gaps_ge_far [OF assms(2) last le]
  have far: "zs ! r + (d + 1) * int (?K - 1 - r) \<le> zs ! (?K - 1)" .
  from r have eq: "int (?K - 1 - r) = int ?K - 1 - int r"
    by linarith
  from far have "zs ! r + (d + 1) * (int ?K - 1 - int r) \<le> zs ! (?K - 1)"
    by (simp only: eq)
  with last_hi have "zs ! r + (d + 1) * (int ?K - 1 - int r) < n"
    by linarith
  moreover from r have "0 \<le> int ?K - 1 - int r"
    by simp
  ultimately have "zs ! r - d * int r < n - (int ?K - 1) * d"
    by (simp add: algebra_simps)
  with lo v show "v \<in> {1..<n - (int (length zs) - 1) * d}"
    by simp
qed

lemma finite_in_range: "S \<subseteq> {1..<m::int} \<Longrightarrow> finite S"
  by (erule finite_subset) simp

lemma expand_set_in:
  assumes "0 \<le> d" and "S \<in> k_subsets (n - (k - 1) * d) k"
  shows "expand_set d S \<in> min_gap_subsets n k (d + 1)"
    and "compress_set d (expand_set d S) = S"
proof -
  let ?ys = "sorted_list_of_set S"
  let ?zs = "spread d ?ys"
  from assms(2) have sub: "S \<subseteq> {1..<n - (k - 1) * d}" and card: "int (card S) = k"
    by (simp_all add: k_subsets_def)
  from sub have fin: "finite S"
    by (rule finite_in_range)
  then have set_ys: "set ?ys = S" and len_ys: "length ?ys = card S"
    by simp_all
  have "sorted_wrt (<) ?ys"
    by simp
  then have "gaps_ge (1 + d) ?zs"
    by (intro spread_gaps strict_sorted_gaps)
  then have gaps: "gaps_ge (d + 1) ?zs"
    by (simp add: add.commute)
  moreover from assms(1) have "0 < d + 1"
    by simp
  ultimately have strict: "sorted_wrt (<) ?zs"
    by (rule gaps_ge_strict_sorted)
  then have sl: "sorted_list_of_set (set ?zs) = ?zs"
    by (rule strict_sorted_list_of_set_id)
  have es: "expand_set d S = set ?zs"
    by (rule expand_set_spread)
  from strict have "distinct ?zs"
    by (simp add: strict_sorted_iff)
  then have "card (set ?zs) = length ?zs"
    by (rule distinct_card)
  with len_ys card have c: "int (card (set ?zs)) = k"
    by (simp add: length_spread)
  from sub set_ys have "set ?ys \<subseteq> {1..<n - (k - 1) * d}"
    by simp
  from spread_range [OF assms(1) this] len_ys card
  have r: "set ?zs \<subseteq> {1..<n}"
    by simp
  from r c gaps sl show "expand_set d S \<in> min_gap_subsets n k (d + 1)"
    by (simp add: min_gap_subsets_def es)
  from sl set_ys show "compress_set d (expand_set d S) = S"
    by (simp add: compress_set_def es squeeze_spread)
qed

lemma compress_set_in:
  assumes "0 \<le> d" and "T \<in> min_gap_subsets n k (d + 1)"
  shows "compress_set d T \<in> k_subsets (n - (k - 1) * d) k"
    and "expand_set d (compress_set d T) = T"
proof -
  let ?zs = "sorted_list_of_set T"
  let ?ys = "squeeze d ?zs"
  from assms(2) have sub: "T \<subseteq> {1..<n}" and card: "int (card T) = k"
    and gaps: "gaps_ge (d + 1) ?zs"
    by (simp_all add: min_gap_subsets_def)
  from sub have fin: "finite T"
    by (rule finite_in_range)
  then have set_zs: "set ?zs = T" and len_zs: "length ?zs = card T"
    by simp_all
  from gaps have "gaps_ge (d + 1 - d) ?ys"
    by (rule squeeze_gaps)
  then have "gaps_ge 1 ?ys"
    by simp
  then have strict: "sorted_wrt (<) ?ys"
    by (rule gaps_ge_strict_sorted) simp
  then have sl: "sorted_list_of_set (set ?ys) = ?ys"
    by (rule strict_sorted_list_of_set_id)
  from strict have "distinct ?ys"
    by (simp add: strict_sorted_iff)
  then have "card (set ?ys) = length ?ys"
    by (rule distinct_card)
  with len_zs card have c: "int (card (set ?ys)) = k"
    by (simp add: length_squeeze)
  from sub set_zs have "set ?zs \<subseteq> {1..<n}"
    by simp
  from squeeze_range [OF assms(1) gaps this] len_zs card
  have r: "set ?ys \<subseteq> {1..<n - (k - 1) * d}"
    by simp
  from r c show "compress_set d T \<in> k_subsets (n - (k - 1) * d) k"
    by (simp add: k_subsets_def compress_set_def)
  from sl set_zs show "expand_set d (compress_set d T) = T"
    by (simp add: compress_set_def expand_set_spread spread_squeeze)
qed

lemma expand_set_bij:
  assumes "0 \<le> d"
  shows "bij_betw (expand_set d) (k_subsets (n - (k - 1) * d) k) (min_gap_subsets n k (d + 1))"
proof (rule bij_betw_byWitness [where f' = "compress_set d"])
  show "\<forall>S \<in> k_subsets (n - (k - 1) * d) k. compress_set d (expand_set d S) = S"
    using expand_set_in(2) [OF assms] by blast
  show "\<forall>T \<in> min_gap_subsets n k (d + 1). expand_set d (compress_set d T) = T"
    using compress_set_in(2) [OF assms] by blast
  show "expand_set d ` k_subsets (n - (k - 1) * d) k \<subseteq> min_gap_subsets n k (d + 1)"
    using expand_set_in(1) [OF assms] by blast
  show "compress_set d ` min_gap_subsets n k (d + 1) \<subseteq> k_subsets (n - (k - 1) * d) k"
    using compress_set_in(1) [OF assms] by blast
qed

lemma possible_outputs_image:
  assumes "valid_params n k d" and "fits_ssize n k d"
  shows "possible_outputs n k d =
           expand d ` {sampl. is_sample_of (Range 1 (n - (k - 1) * d)) k sampl}"
proof -
  have "fst (sample_with_minimum_distance (\<lambda>g population j. (Inr sampl, g)) n k d ())
          = Inr (expand d sampl)" for sampl
    by (rule valid_returns [OF assms]) (simp add: drawn_def)
  then show ?thesis
    by (auto simp: possible_outputs_def)
qed

lemma possible_outputs_overflow:
  assumes "\<not> fits_ssize n k d"
  shows "possible_outputs n k d = {}"
  by (simp add: possible_outputs_def smd_overflow [OF assms])

lemma sample_set_in:
  assumes "is_sample_of (Range 1 m) k sampl"
  shows "set sampl \<in> k_subsets m k" and "distinct sampl"
proof -
  from assms show dist: "distinct sampl"
    by (simp add: is_sample_of_def)
  from assms have "set sampl \<subseteq> {1..<m}" and "int (length sampl) = k"
    by (auto simp: is_sample_of_def list_all_iff)
  with distinct_card [OF dist] show "set sampl \<in> k_subsets m k"
    by (simp add: k_subsets_def)
qed

lemma subset_is_sample:
  assumes "S \<in> k_subsets m k"
  shows "is_sample_of (Range 1 m) k (sorted_list_of_set S)"
proof -
  from assms have sub: "S \<subseteq> {1..<m}" and card: "int (card S) = k"
    by (simp_all add: k_subsets_def)
  from sub have "finite S"
    by (rule finite_in_range)
  with sub card show ?thesis
    by (auto simp: is_sample_of_def list_all_iff)
qed

lemma possible_output_sets:
  assumes "valid_params n k d" and "fits_ssize n k d"
  shows "set ` possible_outputs n k d = min_gap_subsets n k (d + 1)"
proof (rule set_eqI, rule iffI)
  fix T assume "T \<in> set ` possible_outputs n k d"
  then obtain sampl where s: "is_sample_of (Range 1 (n - (k - 1) * d)) k sampl"
    and T: "T = set (expand d sampl)"
    by (auto simp: possible_outputs_image [OF assms])
  from assms(1) have d: "0 \<le> d"
    by (simp add: valid_params_def)
  from sample_set_in [OF s] T have "T = expand_set d (set sampl)"
    and "set sampl \<in> k_subsets (n - (k - 1) * d) k"
    by (simp_all add: set_expand_expand_set)
  with expand_set_in(1) [OF d] show "T \<in> min_gap_subsets n k (d + 1)"
    by simp
next
  fix T assume T: "T \<in> min_gap_subsets n k (d + 1)"
  let ?S = "compress_set d T"
  let ?sampl = "sorted_list_of_set ?S"
  from assms(1) have d: "0 \<le> d"
    by (simp add: valid_params_def)
  from compress_set_in [OF d T] have S: "?S \<in> k_subsets (n - (k - 1) * d) k"
    and inv: "expand_set d ?S = T"
    by simp_all
  from subset_is_sample [OF S] have "expand d ?sampl \<in> possible_outputs n k d"
    by (simp add: possible_outputs_image [OF assms])
  moreover from inv have "set (expand d ?sampl) = T"
    by (simp add: expand_set_def)
  ultimately show "T \<in> set ` possible_outputs n k d"
    by blast
qed

lemma draw_set_expand:
  assumes "is_sample_of (Range 1 m) k sampl"
  shows "set (expand d sampl) = expand_set d (set sampl)"
  using sample_set_in(2) [OF assms] by (rule set_expand_expand_set)

lemma unique_preimage:
  assumes d: "0 \<le> d" and T: "T \<in> min_gap_subsets n k (d + 1)"
  shows "\<exists>!S. S \<in> k_subsets (n - (k - 1) * d) k \<and> expand_set d S = T"
proof (rule ex1I [of _ "compress_set d T"])
  from compress_set_in [OF d T]
  show "compress_set d T \<in> k_subsets (n - (k - 1) * d) k \<and>
        expand_set d (compress_set d T) = T"
    by simp
next
  fix S assume a: "S \<in> k_subsets (n - (k - 1) * d) k \<and> expand_set d S = T"
  then have "S \<in> k_subsets (n - (k - 1) * d) k"
    by simp
  from expand_set_in(2) [OF d this] have "compress_set d (expand_set d S) = S" .
  with a show "S = compress_set d T"
    by simp
qed

text \<open>
  Claim C1 (amended). For valid \<open>(n, k, d)\<close> whose range has at most \<open>sys.maxsize\<close>
  elements, the possible outputs, viewed as sets, are exactly the \<open>k\<close>-element subsets of
  \<open>[1, n)\<close> whose sorted adjacent gaps are at least \<open>d + 1\<close> (with a larger range there is
  no output at all); the expansion map is a bijection from the \<open>k\<close>-subsets of \<open>[1, m)\<close>,
  \<open>m = n - (k - 1) * d\<close>, onto them; the set of an output depends on the drawn set only;
  and every such subset has exactly one preimage, so that a uniform draw of the raw
  \<open>k\<close>-subset makes all of them equally likely.
\<close>

theorem sample_outputs_bijection:
  assumes "valid_params n k d"
  shows "(fits_ssize n k d \<longrightarrow>
            set ` possible_outputs n k d = min_gap_subsets n k (d + 1)) \<and>
         (\<not> fits_ssize n k d \<longrightarrow> possible_outputs n k d = {}) \<and>
         bij_betw (expand_set d) (k_subsets (n - (k - 1) * d) k) (min_gap_subsets n k (d + 1)) \<and>
         (\<forall>sampl. is_sample_of (Range 1 (n - (k - 1) * d)) k sampl \<longrightarrow>
            set (expand d sampl) = expand_set d (set sampl)) \<and>
         (\<forall>T \<in> min_gap_subsets n k (d + 1).
            \<exists>!S. S \<in> k_subsets (n - (k - 1) * d) k \<and> expand_set d S = T)"
proof (intro conjI allI impI ballI)
  from assms have d: "0 \<le> d"
    by (simp add: valid_params_def)
  show "set ` possible_outputs n k d = min_gap_subsets n k (d + 1)" if "fits_ssize n k d"
    using assms that by (rule possible_output_sets)
  show "possible_outputs n k d = {}" if "\<not> fits_ssize n k d"
    using that by (rule possible_outputs_overflow)
  show "bij_betw (expand_set d) (k_subsets (n - (k - 1) * d) k)
               (min_gap_subsets n k (d + 1))"
    using d by (rule expand_set_bij)
  show "set (expand d sampl) = expand_set d (set sampl)"
    if "is_sample_of (Range 1 (n - (k - 1) * d)) k sampl" for sampl
    using that by (rule draw_set_expand)
  show "\<exists>!S. S \<in> k_subsets (n - (k - 1) * d) k \<and> expand_set d S = T"
    if "T \<in> min_gap_subsets n k (d + 1)" for T
    using d that by (rule unique_preimage)
qed

theorem sample_outputs_bijection_witness:
  "valid_params 10 2 2 \<and> fits_ssize 10 2 2 \<and>
   set ` possible_outputs 10 2 2 = min_gap_subsets 10 2 (2 + 1) \<and>
   bij_betw (expand_set 2) (k_subsets (10 - (2 - 1) * 2) 2) (min_gap_subsets 10 2 (2 + 1))"
proof -
  have v: "valid_params 10 2 2"
    by (simp add: valid_params_def)
  have f: "fits_ssize 10 2 2"
    by (simp add: fits_ssize_def sys_maxsize_def)
  note t = sample_outputs_bijection [OF v]
  from v f t [THEN conjunct1, rule_format, OF f]
    t [THEN conjunct2, THEN conjunct2, THEN conjunct1] show ?thesis
    by (intro conjI)
qed

text \<open>
  With gaps of at least \<open>d\<close> instead, the description is too wide: for
  \<open>(n, k, d) = (10, 2, 2)\<close> the set \<open>{1, 3}\<close> has gap \<open>2\<close> and is never returned. And at the
  valid \<open>(2^63 + 5, 1, 0)\<close> nothing is returned, while \<open>{1}\<close> is such a subset.
\<close>

theorem sample_outputs_gap_counterexample:
  "valid_params 10 2 2 \<and> {1, 3} \<in> min_gap_subsets 10 2 2 \<and>
   {1, 3} \<notin> set ` possible_outputs 10 2 2 \<and>
   valid_params (2 ^ 63 + 5) 1 0 \<and> {1} \<in> min_gap_subsets (2 ^ 63 + 5) 1 0 \<and>
   possible_outputs (2 ^ 63 + 5) 1 0 = {}"
proof -
  have v: "valid_params 10 2 2"
    by (simp add: valid_params_def)
  have f: "fits_ssize 10 2 2"
    by (simp add: fits_ssize_def sys_maxsize_def)
  have s: "sorted_list_of_set {1, 3 :: int} = [1, 3]"
    by code_simp
  have g: "gaps_ge 2 [1, 3]"
    by code_simp
  have c: "card {1, 3 :: int} = 2"
    by simp
  have r: "{1, 3 :: int} \<subseteq> {1..<10}"
    by simp
  from s g c r have inside: "{1, 3} \<in> min_gap_subsets 10 2 2"
    by (simp only: min_gap_subsets_def mem_Collect_eq) simp
  have outside: "{1, 3} \<notin> set ` possible_outputs 10 2 2"
  proof
    assume "{1, 3} \<in> set ` possible_outputs 10 2 2"
    then obtain out where o: "out \<in> possible_outputs 10 2 2" and eq: "set out = {1, 3}"
      by (auto simp only: image_iff)
    from o obtain sampl where "is_sample_of (Range 1 (10 - (2 - 1) * 2)) 2 sampl"
      and e: "out = expand 2 sampl"
      unfolding possible_outputs_image [OF v f] by blast
    then have dist: "distinct sampl"
      by (simp add: is_sample_of_def)
    from eq e have a: "1 \<in> set (expand 2 sampl)" and b: "3 \<in> set (expand 2 sampl)"
      by simp_all
    have "(0::int) \<le> 2" and "(1::int) \<noteq> 3"
      by simp_all
    from expand_far_apart [OF this(1) dist a b this(2)] show False
      by simp
  qed
  have v': "valid_params (2 ^ 63 + 5) 1 0"
    by (simp add: valid_params_def)
  have g': "gaps_ge 0 [1]"
    by code_simp
  then have inside': "{1} \<in> min_gap_subsets (2 ^ 63 + 5) 1 0"
    by (simp add: min_gap_subsets_def)
  have "\<not> fits_ssize (2 ^ 63 + 5) 1 0"
    by (simp add: fits_ssize_def sys_maxsize_def)
  then have none: "possible_outputs (2 ^ 63 + 5) 1 0 = {}"
    by (rule possible_outputs_overflow)
  from v inside outside v' inside' none show ?thesis
    by (intro conjI)
qed

end
